theory Spec2Isabelle
  imports Main "HOL-Library.Sublist" "HOL-Library.AList"
begin

text \<open>
  A model of the question-paper generator of \<open>ktu_question_generator/__init__.py\<close>: the
  class \<open>QuestionPaperGenerator\<close> with its text extractor, its harvester of past
  questions, its prompt composer and its parser of the generated text. Each function of
  the class is a function here, under its own name; each regular expression is a
  function that computes what the matcher computes, backtracking included. The PDF
  library and the generation service are outside the program and enter as data: the
  texts of the pages, the outcome of the call.
\<close>

section \<open>Strings and character classes\<close>

text \<open>
  A Python \<open>str\<close> is a sequence of code points. It is modelled as a \<open>string\<close> with one
  \<open>char\<close> per code point, which covers the code points 0 to 255. The character classes
  below are the ones Python 3 uses on that range: \<open>str.isspace\<close>, \<open>str.strip\<close> and the
  regular-expression class \<open>\s\<close> agree on twelve code points; \<open>\d\<close> is the ten ASCII digits;
  \<open>str.isdigit\<close> also accepts the superscripts one, two and three.
\<close>

definition NL :: char where
  "NL = CHR 0x0A"

definition isspace :: "char \<Rightarrow> bool" where
  "isspace c = (of_char c \<in> {9, 10, 11, 12, 13, 28, 29, 30, 31, 32, 133, 160 :: nat})"

definition re_digit :: "char \<Rightarrow> bool" where
  "re_digit c = (48 \<le> (of_char c :: nat) \<and> (of_char c :: nat) \<le> 57)"

definition isdigit :: "char \<Rightarrow> bool" where
  "isdigit c = (re_digit c \<or> of_char c \<in> {178, 179, 185 :: nat})"

definition re_lower :: "char \<Rightarrow> bool" where
  "re_lower c = (97 \<le> (of_char c :: nat) \<and> (of_char c :: nat) \<le> 122)"

definition lstrip :: "string \<Rightarrow> string" where
  "lstrip s = dropWhile isspace s"

definition rstrip :: "string \<Rightarrow> string" where
  "rstrip s = rev (dropWhile isspace (rev s))"

definition strip :: "string \<Rightarrow> string" where
  "strip s = rstrip (lstrip s)"

text \<open>\<open>text.split('\n')\<close>: always at least one piece.\<close>

fun split_nl :: "string \<Rightarrow> string list" where
  "split_nl [] = [[]]"
| "split_nl (c # cs) =
     (if c = NL then [] # split_nl cs
      else (case split_nl cs of [] \<Rightarrow> [[c]] | l # ls \<Rightarrow> (c # l) # ls))"

text \<open>\<open>pat in s\<close> for strings.\<close>

fun str_contains :: "string \<Rightarrow> string \<Rightarrow> bool" where
  "str_contains pat [] = (pat = [])"
| "str_contains pat (c # cs) = (prefix pat (c # cs) \<or> str_contains pat cs)"

text \<open>\<open>s.replace(pat, '')\<close>: every occurrence, left to right, without overlap.\<close>

function str_remove :: "string \<Rightarrow> string \<Rightarrow> string" where
  "str_remove pat s =
     (if s = [] \<or> pat = [] then s
      else if prefix pat s then str_remove pat (drop (length pat) s)
      else hd s # str_remove pat (tl s))"
  by pat_completeness auto
termination
  by (relation "measure (\<lambda>(pat, s). length s)") auto

text \<open>\<open>s.replace('\n', ' ')\<close>.\<close>

definition nl_to_space :: "string \<Rightarrow> string" where
  "nl_to_space s = map (\<lambda>c. if c = NL then CHR '' '' else c) s"

text \<open>\<open>int(ds)\<close> on a string: the decimal value of a non-empty run of ASCII digits,
  ValueError (here \<open>None\<close>) otherwise. The parser calls it on a match of \<open>\d+\<close> only.
  (An interpreter that limits the number of digits of such a conversion raises ValueError
  beyond the limit; the parser catches it and goes on as if the tag were absent.)\<close>

definition digit_val :: "char \<Rightarrow> int" where
  "digit_val c = int (of_char c) - 48"

definition py_int :: "string \<Rightarrow> int option" where
  "py_int ds = (if ds \<noteq> [] \<and> list_all re_digit ds
                then Some (foldl (\<lambda>n c. 10 * n + digit_val c) 0 ds) else None)"

section \<open>The regular expressions of the parser\<close>

text \<open>\<open>re.match(r'\*\*(.*?)\*\*', line)\<close>: the line starts with two stars; group 1 is the
  shortest text up to the next two stars. The dot does not match a newline.\<close>

fun until_stars :: "string \<Rightarrow> string option" where
  "until_stars [] = None"
| "until_stars (c # cs) =
     (if prefix ''**'' (c # cs) then Some []
      else if c = NL then None
      else map_option ((#) c) (until_stars cs))"

definition section_match :: "string \<Rightarrow> string option" where
  "section_match line = (if prefix ''**'' line then until_stars (drop 2 line) else None)"

text \<open>\<open>\[(\d+)\s*Marks\]\<close> matched at the start of \<open>s\<close>: group 1 and the text after the
  match.\<close>

definition marks_at :: "string \<Rightarrow> (string \<times> string) option" where
  "marks_at s =
     (case s of [] \<Rightarrow> None
      | c # r \<Rightarrow>
          if c \<noteq> CHR ''['' then None
          else (let ds = takeWhile re_digit r;
                    r2 = dropWhile isspace (dropWhile re_digit r)
                in if ds \<noteq> [] \<and> prefix ''Marks]'' r2 then Some (ds, drop 6 r2) else None))"

text \<open>\<open>re.search\<close> of that pattern: group 1 of the leftmost match.\<close>

fun marks_search :: "string \<Rightarrow> string option" where
  "marks_search [] = None"
| "marks_search (c # cs) =
     (case marks_at (c # cs) of Some (ds, r) \<Rightarrow> Some ds | None \<Rightarrow> marks_search cs)"

lemma marks_at_shorter: "marks_at s = Some (ds, r) \<Longrightarrow> length r < length s"
proof -
  assume a: "marks_at s = Some (ds, r)"
  then obtain c t where s: "s = c # t" by (cases s) (auto simp: marks_at_def)
  let ?r2 = "dropWhile isspace (dropWhile re_digit t)"
  from a s have r: "r = drop 6 ?r2"
    by (auto simp: marks_at_def Let_def split: if_splits)
  have "length ?r2 \<le> length t"
    by (meson length_dropWhile_le order_trans)
  with r s show ?thesis by simp
qed

text \<open>\<open>re.sub(r'\[\d+\s*Marks\]', '', s)\<close>.\<close>

function marks_sub :: "string \<Rightarrow> string" where
  "marks_sub s =
     (case s of [] \<Rightarrow> []
      | c # cs \<Rightarrow> (case marks_at s of Some (ds, r) \<Rightarrow> marks_sub r | None \<Rightarrow> c # marks_sub cs))"
  by pat_completeness auto
termination
  by (relation "measure length") (auto dest: marks_at_shorter)

text \<open>\<open>re.sub(r'^\d+\.\s*', '', s)\<close>.\<close>

definition strip_enum :: "string \<Rightarrow> string" where
  "strip_enum s =
     (let ds = takeWhile re_digit s; r = dropWhile re_digit s
      in if ds \<noteq> [] \<and> prefix ''.'' r then dropWhile isspace (drop 1 r) else s)"

text \<open>\<open>re.sub(r'^\[.*?\]\s*', '', s)\<close>: the dot does not match a newline.\<close>

definition strip_lead_tag :: "string \<Rightarrow> string" where
  "strip_lead_tag s =
     (case s of [] \<Rightarrow> s
      | c # r \<Rightarrow>
          if c \<noteq> CHR ''['' then s
          else (case dropWhile (\<lambda>x. x \<noteq> CHR '']'' \<and> x \<noteq> NL) r of
                  [] \<Rightarrow> s
                | x # r2 \<Rightarrow> if x = CHR '']'' then dropWhile isspace r2 else s))"

text \<open>\<open>re.split(r'(?=a\))', s, maxsplit=1)\<close>: the text before the first \<open>a)\<close> and, when
  there is one, the text from it on. An \<open>a)\<close> at the very start gives an empty first piece.\<close>

fun split_a :: "string \<Rightarrow> string \<times> string option" where
  "split_a [] = ([], None)"
| "split_a (c # cs) =
     (if prefix ''a)'' (c # cs) then ([], Some (c # cs))
      else (case split_a cs of (m, opt) \<Rightarrow> (c # m, opt)))"

text \<open>
  \<open>re.findall(r'([a-z]\))\s*([^a-z\)](?:.*?))(?:\s*(?=[a-z]\))|$)', s, re.DOTALL)\<close>.

  \<open>opt_marker\<close> is \<open>[a-z]\)\<close> at the start of the text. \<open>opt_end\<close> is the closing
  alternative: whitespace followed by a marker, or the end of the text (also just before
  a final newline); it gives the number of characters consumed. \<open>opt_body\<close> is the lazy
  \<open>.*?\<close>: the shortest text after which \<open>opt_end\<close> matches. In \<open>opt_match\<close> the greedy
  \<open>\s*\<close> gives back its last character when the character after the whitespace is a
  lower-case letter, a closing parenthesis or missing, since a whitespace character
  matches \<open>[^a-z\)]\<close>.
\<close>

definition opt_marker :: "string \<Rightarrow> bool" where
  "opt_marker s = (case s of c # d # r \<Rightarrow> re_lower c \<and> d = CHR '')'' | _ \<Rightarrow> False)"

definition opt_end :: "string \<Rightarrow> nat option" where
  "opt_end s =
     (if opt_marker (dropWhile isspace s) then Some (length (takeWhile isspace s))
      else if s = [] \<or> s = [NL] then Some 0
      else None)"

fun opt_body :: "string \<Rightarrow> string \<times> string" where
  "opt_body [] = ([], [])"
| "opt_body (c # cs) =
     (case opt_end (c # cs) of
        Some m \<Rightarrow> ([], drop m (c # cs))
      | None \<Rightarrow> (case opt_body cs of (b, r) \<Rightarrow> (c # b, r)))"

definition opt_match :: "string \<Rightarrow> (string \<times> string \<times> string) option" where
  "opt_match s =
     (case s of
        c # d # r \<Rightarrow>
          if re_lower c \<and> d = CHR '')'' then
            (let ws = takeWhile isspace r; r1 = dropWhile isspace r
             in if r1 \<noteq> [] \<and> \<not> re_lower (hd r1) \<and> hd r1 \<noteq> CHR '')'' then
                  (case opt_body (tl r1) of (b, rest) \<Rightarrow> Some ([c, d], hd r1 # b, rest))
                else if ws \<noteq> [] then
                  (case opt_body r1 of (b, rest) \<Rightarrow> Some ([c, d], last ws # b, rest))
                else None)
          else None
      | _ \<Rightarrow> None)"

lemma opt_body_shorter: "opt_body s = (b, r) \<Longrightarrow> length r \<le> length s"
proof (induction s arbitrary: b r)
  case Nil
  then show ?case by simp
next
  case (Cons c cs)
  show ?case
  proof (cases "opt_end (c # cs)")
    case None
    obtain b' r' where br: "opt_body cs = (b', r')" by (cases "opt_body cs")
    with None Cons.prems have "r = r'" by simp
    with Cons.IH [OF br] show ?thesis by simp
  next
    case (Some m)
    with Cons.prems have "r = drop m (c # cs)" by simp
    then show ?thesis by simp
  qed
qed

lemma opt_match_shorter: "opt_match s = Some (g1, g2, r) \<Longrightarrow> length r < length s"
proof -
  assume a: "opt_match s = Some (g1, g2, r)"
  then obtain c d t where s: "s = c # d # t"
    by (cases s; cases "tl s") (auto simp: opt_match_def)
  have dw: "length (dropWhile isspace t) \<le> length t"
    by (rule length_dropWhile_le)
  from a s consider
      (direct) b where "opt_body (tl (dropWhile isspace t)) = (b, r)"
    | (retreat) b where "opt_body (dropWhile isspace t) = (b, r)"
    by (auto simp: opt_match_def Let_def split: if_splits prod.splits)
  then show ?thesis
  proof cases
    case direct
    from opt_body_shorter [OF direct] have "length r \<le> length (tl (dropWhile isspace t))" .
    with dw s show ?thesis by simp
  next
    case retreat
    from opt_body_shorter [OF retreat] dw s show ?thesis by simp
  qed
qed

function opt_findall :: "string \<Rightarrow> (string \<times> string) list" where
  "opt_findall s =
     (case opt_match s of
        Some (g1, g2, r) \<Rightarrow> (g1, g2) # opt_findall r
      | None \<Rightarrow> (case s of [] \<Rightarrow> [] | c # cs \<Rightarrow> opt_findall cs))"
  by pat_completeness auto
termination
  by (relation "measure length") (auto dest: opt_match_shorter)

text \<open>The list comprehension over the matches: trimmed option texts, empty ones left out.\<close>

definition mcq_options :: "string \<Rightarrow> string list" where
  "mcq_options blob =
     map (\<lambda>(g1, g2). nl_to_space (strip g2))
       (filter (\<lambda>(g1, g2). strip g2 \<noteq> []) (opt_findall blob))"

section \<open>Templates, questions and documents\<close>

text \<open>
  A template is a dictionary whose \<open>sections\<close> entry is a list of dictionaries with the
  keys \<open>name\<close>, \<open>type\<close>, \<open>questions\<close> and \<open>marks_per_question\<close> (the request handler
  builds them so, with integer counts and marks). A question is a dictionary with the keys
  \<open>text\<close>, \<open>difficulty\<close> and \<open>marks\<close>, and \<open>options\<close> for a multiple-choice section only.
  The \<open>sections\<close> dictionary of the result keeps insertion order: it is an association
  list, written with \<open>AList.update\<close>, which replaces the value of a key in place and
  appends a new key.
\<close>

record section_spec =
  s_name :: string
  s_type :: string
  s_questions :: int
  s_marks_per_question :: int

record template =
  t_sections :: "section_spec list"

record question =
  q_text :: string
  q_difficulty :: string
  q_marks :: int
  q_options :: "string list option"

type_synonym sections_dict = "(string \<times> question list) list"

record document =
  d_sections :: sections_dict

datatype py_error = IndexError string

text \<open>Python values that meet in a comparison of the parser: a string and a section
  dictionary. \<open>x in xs\<close> on a list compares with \<open>==\<close>, and a string never equals a
  dictionary.\<close>

datatype py_value = PyStr string | PyDict section_spec

definition py_in :: "py_value \<Rightarrow> py_value list \<Rightarrow> bool" where
  "py_in x xs = (x \<in> set xs)"

text \<open>The dictionary comprehension \<open>{section['name']: section.get('type', '')}\<close>: a later
  section of the same name replaces an earlier one.\<close>

definition section_types :: "template \<Rightarrow> (string \<rightharpoonup> string)" where
  "section_types t = fold (\<lambda>s m. m(s_name s \<mapsto> s_type s)) (t_sections t) Map.empty"

text \<open>The loop that looks for the first section of a given name and takes its marks.\<close>

fun default_marks :: "section_spec list \<Rightarrow> string \<Rightarrow> int option" where
  "default_marks [] cur = None"
| "default_marks (s # ss) cur =
     (if s_name s = cur then Some (s_marks_per_question s) else default_marks ss cur)"

section \<open>The output parser\<close>

text \<open>The state of the loop of \<open>_format_response\<close>: the three local variables.\<close>

record pstate =
  sections :: sections_dict
  current_section :: "string option"
  current_questions :: "question list"

definition init_state :: pstate where
  "init_state = \<lparr>sections = [], current_section = None, current_questions = []\<rparr>"

text \<open>Truth value of \<open>current_section\<close>: neither \<open>None\<close> nor the empty string.\<close>

definition truthy :: "string option \<Rightarrow> bool" where
  "truthy cur = (case cur of None \<Rightarrow> False | Some n \<Rightarrow> n \<noteq> [])"

definition commit :: "pstate \<Rightarrow> sections_dict" where
  "commit st =
     (if truthy (current_section st)
      then AList.update (the (current_section st)) (current_questions st) (sections st)
      else sections st)"

text \<open>The test for a new question item. \<open>line[0]\<close> is read only when the three
  \<open>startswith\<close> tests fail, and raises IndexError on an empty line.\<close>

definition is_item :: "string \<Rightarrow> py_error + bool" where
  "is_item line =
     (if prefix ''- '' line \<or> prefix ''a)'' line \<or> prefix ''b)'' line then Inr True
      else (case line of
              [] \<Rightarrow> Inl (IndexError ''string index out of range'')
            | c # cs \<Rightarrow> Inr (isdigit c)))"

definition extract_difficulty :: "string \<Rightarrow> string option \<times> string" where
  "extract_difficulty line =
     (if str_contains ''[Easy]'' line then (Some ''easy'', strip (str_remove ''[Easy]'' line))
      else if str_contains ''[Medium]'' line
        then (Some ''medium'', strip (str_remove ''[Medium]'' line))
      else if str_contains ''[Hard]'' line then (Some ''hard'', strip (str_remove ''[Hard]'' line))
      else (None, line))"

definition extract_marks :: "string \<Rightarrow> int option \<times> string" where
  "extract_marks line =
     (case marks_search line of
        None \<Rightarrow> (None, line)
      | Some ds \<Rightarrow>
          (case py_int ds of
             Some n \<Rightarrow> (Some n, strip (marks_sub line))
           | None \<Rightarrow> (None, line)))"

text \<open>\<open>if marks is None and current_section in template['sections']\<close>, then the loop.\<close>

definition fallback_marks :: "template \<Rightarrow> string \<Rightarrow> int option \<Rightarrow> int option" where
  "fallback_marks t cur m =
     (if m = None \<and> py_in (PyStr cur) (map PyDict (t_sections t))
      then (case default_marks (t_sections t) cur of Some d \<Rightarrow> Some d | None \<Rightarrow> m)
      else m)"

text \<open>\<open>difficulty or 'medium'\<close> and \<open>marks or 0\<close>.\<close>

definition difficulty_or_medium :: "string option \<Rightarrow> string" where
  "difficulty_or_medium d = (case d of None \<Rightarrow> ''medium'' | Some x \<Rightarrow> if x = [] then ''medium'' else x)"

definition marks_or_0 :: "int option \<Rightarrow> int" where
  "marks_or_0 m = (case m of None \<Rightarrow> 0 | Some n \<Rightarrow> n)"

text \<open>The question built from an item line of the section \<open>cur\<close>.\<close>

definition make_question :: "template \<Rightarrow> string \<Rightarrow> string \<Rightarrow> question" where
  "make_question t cur line0 =
     (case extract_difficulty line0 of (difficulty, line1) \<Rightarrow>
      case extract_marks line1 of (marks0, line) \<Rightarrow>
        let marks = fallback_marks t cur marks0;
            q_type = (case section_types t cur of None \<Rightarrow> [] | Some ty \<Rightarrow> ty);
            clean_line = strip_lead_tag (strip_enum line)
        in if q_type = ''multiple_choice'' then
             (case split_a clean_line of (main_q, opts) \<Rightarrow>
                \<lparr>q_text = strip main_q,
                 q_difficulty = difficulty_or_medium difficulty,
                 q_marks = marks_or_0 marks,
                 q_options = Some (case opts of None \<Rightarrow> [] | Some blob \<Rightarrow> mcq_options blob)\<rparr>)
           else
             \<lparr>q_text = strip clean_line,
              q_difficulty = difficulty_or_medium difficulty,
              q_marks = marks_or_0 marks,
              q_options = None\<rparr>)"

text \<open>\<open>current_questions[-1]['text'] += " " + line\<close>: IndexError on an empty list.\<close>

definition append_to_last :: "question list \<Rightarrow> string \<Rightarrow> py_error + question list" where
  "append_to_last qs line =
     (if qs = [] then Inl (IndexError ''list index out of range'')
      else Inr (butlast qs @ [(last qs)\<lparr>q_text := q_text (last qs) @ '' '' @ line\<rparr>]))"

text \<open>One turn of the loop, on a line that is already stripped.\<close>

definition process_line :: "template \<Rightarrow> pstate \<Rightarrow> string \<Rightarrow> py_error + pstate" where
  "process_line t st line =
     (case section_match line of
        Some nm \<Rightarrow>
          Inr \<lparr>sections = commit st, current_section = Some nm, current_questions = []\<rparr>
      | None \<Rightarrow>
          if line \<noteq> [] \<and> truthy (current_section st) then
            (case is_item line of
               Inl e \<Rightarrow> Inl e
             | Inr True \<Rightarrow>
                 Inr (st\<lparr>current_questions :=
                          current_questions st @ [make_question t (the (current_section st)) line]\<rparr>)
             | Inr False \<Rightarrow>
                 if current_questions st \<noteq> [] then
                   (case append_to_last (current_questions st) line of
                      Inl e \<Rightarrow> Inl e
                    | Inr qs \<Rightarrow> Inr (st\<lparr>current_questions := qs\<rparr>))
                 else Inr st)
          else Inr st)"

fun run_lines :: "template \<Rightarrow> pstate \<Rightarrow> string list \<Rightarrow> py_error + pstate" where
  "run_lines t st [] = Inr st"
| "run_lines t st (l # ls) =
     (case process_line t st (strip l) of
        Inl e \<Rightarrow> Inl e
      | Inr st' \<Rightarrow> run_lines t st' ls)"

definition format_response :: "string \<Rightarrow> template \<Rightarrow> py_error + document" where
  "format_response txt t =
     (case run_lines t init_state (split_nl txt) of
        Inl e \<Rightarrow> Inl e
      | Inr st \<Rightarrow> Inr \<lparr>d_sections = commit st\<rparr>)"

section \<open>The text extractor\<close>

text \<open>\<open>re.sub(r'\s+', ' ', s)\<close>: every run of whitespace becomes one space.\<close>

function collapse_ws :: "string \<Rightarrow> string" where
  "collapse_ws [] = []"
| "collapse_ws (c # cs) =
     (if isspace c then CHR '' '' # collapse_ws (dropWhile isspace cs)
      else c # collapse_ws cs)"
  by pat_completeness auto
termination
  by (relation "measure length") (auto simp: le_imp_less_Suc length_dropWhile_le)

text \<open>\<open>' '.join(xs)\<close>.\<close>

fun join_space :: "string list \<Rightarrow> string" where
  "join_space [] = []"
| "join_space [x] = x"
| "join_space (x # y # ys) = x @ '' '' @ join_space (y # ys)"

text \<open>
  What the PDF library gives for a path is outside the program: either opening the file
  or reading a page raises, or every page gives its text. \<open>extract_text_from_pdf\<close>
  catches every exception and returns the empty string.
\<close>

datatype pdf = Unreadable | Pages "string list"

definition extract_text_from_pdf :: "pdf \<Rightarrow> string" where
  "extract_text_from_pdf p =
     (case p of
        Unreadable \<Rightarrow> []
      | Pages ps \<Rightarrow> join_space (map (\<lambda>page. strip (collapse_ws page)) ps))"

section \<open>The question harvester\<close>





definition re_alpha :: "char \<Rightarrow> bool" where
  "re_alpha c = (re_lower c \<or> (65 \<le> (of_char c :: nat) \<and> (of_char c :: nat) \<le> 90))"




















section \<open>The prompt composer and the generation step\<close>

text \<open>\<open>str(n)\<close> for an integer.\<close>

fun str_nat :: "nat \<Rightarrow> string" where
  "str_nat n =
     (if n < 10 then [char_of (48 + n)]
      else str_nat (n div 10) @ [char_of (48 + n mod 10)])"

definition str_int :: "int \<Rightarrow> string" where
  "str_int i = (if i < 0 then CHR ''-'' # str_nat (nat (- i)) else str_nat (nat i))"

text \<open>\<open>chr(10).join(xs)\<close>.\<close>

fun join_nl :: "string list \<Rightarrow> string" where
  "join_nl [] = []"
| "join_nl [x] = x"
| "join_nl (x # y # ys) = x @ [NL] @ join_nl (y # ys)"

text \<open>The difficulty distribution: a dictionary with the keys \<open>easy\<close>, \<open>medium\<close> and
  \<open>hard\<close>, which the request handler fills with integers.\<close>

record difficulty_distribution =
  dd_easy :: int
  dd_medium :: int
  dd_hard :: int

definition difficulty_prompt :: "difficulty_distribution \<Rightarrow> string" where
  "difficulty_prompt dd =
     ''\<newline>**Difficulty Distribution:**\<newline>'' @
     ''- Easy Questions: '' @ str_int (dd_easy dd) @ ''%\<newline>'' @
     ''- Medium Questions: '' @ str_int (dd_medium dd) @ ''%\<newline>'' @
     ''- Hard Questions: '' @ str_int (dd_hard dd) @ ''%\<newline>''"

text \<open>The optional argument \<open>past_questions\<close> is \<open>None\<close> or a list; both \<open>None\<close> and the
  empty list are false.\<close>

definition past_questions_section :: "string list option \<Rightarrow> string" where
  "past_questions_section past_questions =
     (case past_questions of
        None \<Rightarrow> []
      | Some pq \<Rightarrow>
          if pq = [] then []
          else
            ''\<newline>**Avoidance Requirements:**\<newline>'' @
            ''Do not create questions similar to these past questions:\<newline>'' @
            join_nl (map (\<lambda>q. ''- '' @ q) (take 15 pq)) @ ''\<newline>'' @
            ''\<newline>'' @
            ''**Additional Guidelines:**\<newline>'' @
            ''1. Ensure new questions are distinct in both content and phrasing\<newline>'' @
            ''2. Cover similar concepts but with different approaches\<newline>'' @
            ''3. Vary question types and formats\<newline>'')"

text \<open>\<open>section['type'].replace('_', ' ').title()\<close>. The method \<open>str.title\<close> belongs to
  the language and follows the Unicode case tables; it is a parameter \<open>title\<close> of the
  composer. \<open>ascii_title\<close> is what it does on ASCII text: a letter after a letter in lower
  case, any other letter in upper case.\<close>

definition underscores_to_spaces :: "string \<Rightarrow> string" where
  "underscores_to_spaces s = map (\<lambda>c. if c = CHR ''_'' then CHR '' '' else c) s"

definition ascii_upper :: "char \<Rightarrow> char" where
  "ascii_upper c = (if re_lower c then char_of (of_char c - (32 :: nat)) else c)"

definition ascii_lower :: "char \<Rightarrow> char" where
  "ascii_lower c = (if re_alpha c \<and> \<not> re_lower c then char_of (of_char c + (32 :: nat)) else c)"

fun title_from :: "bool \<Rightarrow> string \<Rightarrow> string" where
  "title_from prev [] = []"
| "title_from prev (c # cs) =
     (if re_alpha c then (if prev then ascii_lower c else ascii_upper c) # title_from True cs
      else c # title_from False cs)"

definition ascii_title :: "string \<Rightarrow> string" where
  "ascii_title s = title_from False s"

definition section_prompt :: "(string \<Rightarrow> string) \<Rightarrow> section_spec \<Rightarrow> string" where
  "section_prompt title s =
     ''\<newline>**'' @ s_name s @ '' ('' @ title (underscores_to_spaces (s_type s)) @ ''):**\<newline>'' @
     ''- Number of questions: '' @ str_int (s_questions s) @ ''\<newline>'' @
     ''- Marks per question: '' @ str_int (s_marks_per_question s) @ ''\<newline>'' @
     ''- Total marks: '' @ str_int (s_questions s * s_marks_per_question s) @ ''\<newline>''"

definition system_prompt ::
  "(string \<Rightarrow> string) \<Rightarrow> template \<Rightarrow> difficulty_distribution \<Rightarrow> string list option \<Rightarrow> string"
where
  "system_prompt title t dd past_questions =
     ''\<newline>You are an AI specialized in generating academic question papers.\<newline>'' @
     ''Follow these guidelines strictly:\<newline>'' @
     ''\<newline>'' @
     ''**Paper Structure:**\<newline>'' @
     join_nl (map (section_prompt title) (t_sections t)) @ ''\<newline>'' @
     ''\<newline>'' @
     ''**Formatting Rules:**\<newline>'' @
     ''1. Start each section with the section name\<newline>'' @
     ''2. List questions with bullet points (-)\<newline>'' @
     ''3. For sub-questions use a) and b)\<newline>'' @
     ''4. Explicitly include marks allocation in brackets [X Marks]\<newline>'' @
     ''5. Keep questions concise but unambiguous\<newline>'' @
     ''6. Label each question with its difficulty level [Easy/Medium/Hard]\<newline>'' @
     ''\<newline>'' @
     ''**Quality Requirements:**\<newline>'' @
     ''1. Questions must be unambiguous and academically rigorous\<newline>'' @
     ''2. Cover all major topics from the source material\<newline>'' @
     ''3. Include appropriate technical terms\<newline>'' @
     ''4. Follow the specified difficulty distribution\<newline>'' @
     difficulty_prompt dd @ ''\<newline>'' @
     past_questions_section past_questions @ ''\<newline>''"

definition user_prompt :: "string \<Rightarrow> string" where
  "user_prompt combined_text =
     ''Generate a comprehensive question paper from: '' @ take 4000 combined_text"

text \<open>
  The call of the generation service is outside the program. Its outcome for a system
  and a user instruction is a parameter: the call (or the reading of the answer) raises
  with a message, or it returns the text of the answer. \<open>generate_questions\<close> returns
  either the dictionary with the key \<open>error\<close> (here \<open>Inl\<close> with the message) or the parsed
  document; the parser runs inside the \<open>try\<close> block, so an exception of the parser would
  become an error message too.
\<close>

datatype chat_outcome = ChatRaises string | ChatReturns string

definition error_message :: "py_error \<Rightarrow> string" where
  "error_message e = (case e of IndexError m \<Rightarrow> m)"

definition generate_questions ::
  "(string \<Rightarrow> string) \<Rightarrow> (string \<Rightarrow> string \<Rightarrow> chat_outcome) \<Rightarrow> string \<Rightarrow> template
     \<Rightarrow> difficulty_distribution \<Rightarrow> string list option \<Rightarrow> string + document"
where
  "generate_questions title chat combined_text t dd past_questions =
     (if combined_text = [] then Inl ''No meaningful content found in the PDFs''
      else
        (case chat (system_prompt title t dd past_questions) (user_prompt combined_text) of
           ChatRaises m \<Rightarrow> Inl (''Error generating questions: '' @ m)
         | ChatReturns content \<Rightarrow>
             (case format_response content t of
                Inl e \<Rightarrow> Inl (''Error generating questions: '' @ error_message e)
              | Inr d \<Rightarrow> Inr d)))"

section \<open>Properties of strings and example inputs\<close>

text \<open>Three properties of a string: two whitespace characters in a row, a bracketed
  fragment (an opening bracket with a closing one somewhere after it), and whitespace at
  the start or the end.\<close>

fun double_ws :: "string \<Rightarrow> bool" where
  "double_ws (a # b # r) = ((isspace a \<and> isspace b) \<or> double_ws (b # r))"
| "double_ws _ = False"


definition edge_ws :: "string \<Rightarrow> bool" where
  "edge_ws s = (s \<noteq> [] \<and> (isspace (hd s) \<or> isspace (last s)))"

text \<open>The template used in the examples: one section \<open>Section A\<close> of the given type,
  with one question and the given marks per question.\<close>

definition template_A :: "string \<Rightarrow> int \<Rightarrow> template" where
  "template_A ty m =
     \<lparr>t_sections = [\<lparr>s_name = ''Section A'', s_type = ty, s_questions = 1,
                      s_marks_per_question = m\<rparr>]\<rparr>"



definition quota_30_40_30 :: difficulty_distribution where
  "quota_30_40_30 = \<lparr>dd_easy = 30, dd_medium = 40, dd_hard = 30\<rparr>"

text \<open>The recursive equations are unfolded on demand only.\<close>

declare collapse_ws.simps [simp del]
declare str_nat.simps [simp del]
declare str_remove.simps [simp del]
declare marks_sub.simps [simp del]
declare opt_findall.simps [simp del]

section \<open>Parsing a well-formed item\<close>

text \<open>
  Claim C1. Parsing \<open>**Section A**\<close> followed by the line
  \<open>- [Easy][2 Marks] What is 2+2?\<close>, with a template whose section \<open>Section A\<close> is of type
  \<open>short_answer\<close>, is claimed to give one section with one question of text
  \<open>What is 2+2?\<close>, difficulty \<open>easy\<close> and marks 2. The parser gives one section and one
  question with that difficulty and those marks, but the text keeps the bullet and the
  two spaces that the removed tags leave behind: only a leading number or a leading
  bracket is cleaned away, and the bullet stands before both.
\<close>

theorem format_response_keeps_bullet:
  "format_response ''**Section A**\<newline>- [Easy][2 Marks] What is 2+2?''
     (template_A ''short_answer'' 2)
   = Inr \<lparr>d_sections =
            [(''Section A'',
              [\<lparr>q_text = ''-  What is 2+2?'', q_difficulty = ''easy'', q_marks = 2,
                q_options = None\<rparr>])]\<rparr>"
  by code_simp

text \<open>The same item written with a number instead of a bullet is cleaned as the claim
  says: the number is removed, and the text is the question alone.\<close>

lemma format_response_numbered_item:
  "format_response ''**Section A**\<newline>1. [Easy][2 Marks] What is 2+2?''
     (template_A ''short_answer'' 2)
   = Inr \<lparr>d_sections =
            [(''Section A'',
              [\<lparr>q_text = ''What is 2+2?'', q_difficulty = ''easy'', q_marks = 2,
                q_options = None\<rparr>])]\<rparr>"
  by code_simp

section \<open>The marks of an item without a marks tag\<close>



text \<open>
  Claim C2. An item line without a marks tag is claimed to get the marks per question
  of its template section, 5 in the example. The parser leaves the marks undefined there
  and stores 0: for the section \<open>Section A\<close> with 5 marks per question, the item
  \<open>- [Easy] What is 2+2?\<close> gets 0 marks.
\<close>

theorem format_response_no_default_marks:
  "format_response ''**Section A**\<newline>- [Easy] What is 2+2?''
     (template_A ''short_answer'' 5)
   = Inr \<lparr>d_sections =
            [(''Section A'',
              [\<lparr>q_text = ''-  What is 2+2?'', q_difficulty = ''easy'', q_marks = 0,
                q_options = None\<rparr>])]\<rparr>"
  by code_simp

section \<open>The parser raises nothing\<close>

lemma is_item_nonempty: "line \<noteq> [] \<Longrightarrow> \<exists>b. is_item line = Inr b"
  by (cases line) (auto simp: is_item_def)

lemma process_line_Inr: "\<exists>st'. process_line t st line = Inr st'"
proof (cases "section_match line")
  case (Some nm)
  then show ?thesis by (simp add: process_line_def)
next
  case None
  show ?thesis
  proof (cases "line \<noteq> [] \<and> truthy (current_section st)")
    case False
    with None show ?thesis by (auto simp: process_line_def)
  next
    case True
    then obtain b where b: "is_item line = Inr b" using is_item_nonempty by blast
    show ?thesis
    proof (cases b)
      case True
      with None b \<open>line \<noteq> [] \<and> truthy (current_section st)\<close> show ?thesis
        by (simp add: process_line_def)
    next
      case False
      with None b \<open>line \<noteq> [] \<and> truthy (current_section st)\<close> show ?thesis
        by (simp add: process_line_def append_to_last_def)
    qed
  qed
qed

lemma run_lines_Inr: "\<exists>st'. run_lines t st ls = Inr st'"
proof (induction ls arbitrary: st)
  case Nil
  show ?case by simp
next
  case (Cons l ls)
  obtain st1 where "process_line t st (strip l) = Inr st1"
    using process_line_Inr by blast
  with Cons.IH [of st1] show ?case by simp
qed

lemma process_line_idle:
  "section_match line = None \<Longrightarrow> current_section st = None \<Longrightarrow> process_line t st line = Inr st"
  by (simp add: process_line_def truthy_def)

lemma run_lines_idle:
  "\<forall>l \<in> set ls. section_match (strip l) = None \<Longrightarrow> current_section st = None
   \<Longrightarrow> run_lines t st ls = Inr st"
  by (induction ls) (simp_all add: process_line_idle)

text \<open>
  Claim C3. For every template and every input text the parser returns a document and
  raises nothing: the two reads that could fail, \<open>line[0]\<close> and
  \<open>current_questions[-1]\<close>, are guarded. In the worst case, a text without any section
  header, the document has no section.
\<close>

theorem format_response_never_raises:
  "(\<exists>d. format_response txt t = Inr d) \<and>
   ((\<forall>l \<in> set (split_nl txt). section_match (strip l) = None)
      \<longrightarrow> format_response txt t = Inr \<lparr>d_sections = []\<rparr>)"
proof
  obtain st where "run_lines t init_state (split_nl txt) = Inr st"
    using run_lines_Inr by blast
  then show "\<exists>d. format_response txt t = Inr d"
    by (simp add: format_response_def)
next
  show "(\<forall>l \<in> set (split_nl txt). section_match (strip l) = None)
      \<longrightarrow> format_response txt t = Inr \<lparr>d_sections = []\<rparr>"
  proof
    assume "\<forall>l \<in> set (split_nl txt). section_match (strip l) = None"
    then have "run_lines t init_state (split_nl txt) = Inr init_state"
      by (rule run_lines_idle) (simp add: init_state_def)
    then show "format_response txt t = Inr \<lparr>d_sections = []\<rparr>"
      by (simp add: format_response_def commit_def truthy_def init_state_def)
  qed
qed

lemma wit_lines: "split_nl ''%%% garbage ]]\<newline>- [5 Marks'' = [''%%% garbage ]]'', ''- [5 Marks'']"
  by code_simp
lemma wit_m1: "section_match (strip ''%%% garbage ]]'') = None" by code_simp
lemma wit_m2: "section_match (strip ''- [5 Marks'') = None" by code_simp

theorem format_response_never_raises_witness:
  "format_response ''%%% garbage ]]\<newline>- [5 Marks'' (template_A ''short_answer'' 5)
     = Inr \<lparr>d_sections = []\<rparr>"
proof -
  have "\<forall>l \<in> set (split_nl ''%%% garbage ]]\<newline>- [5 Marks''). section_match (strip l) = None"
    unfolding wit_lines by (simp add: wit_m1 wit_m2)
  with format_response_never_raises
    [of "''%%% garbage ]]\<newline>- [5 Marks''" "template_A ''short_answer'' 5"]
  show ?thesis by blast
qed

section \<open>Section headers\<close>

lemma split_nl_no_NL: "l \<in> set (split_nl s) \<Longrightarrow> NL \<notin> set l"
proof (induction s arbitrary: l)
  case Nil
  then show ?case by simp
next
  case (Cons c cs)
  show ?case
  proof (cases "c = NL")
    case True
    with Cons show ?thesis by auto
  next
    case False
    obtain h r where hr: "split_nl cs = h # r"
      by (cases "split_nl cs") (cases cs; simp split: if_splits list.splits)+
    with False Cons.prems have "l = c # h \<or> l \<in> set r" by simp
    then show ?thesis
    proof
      assume "l = c # h"
      moreover have "NL \<notin> set h" using Cons.IH [of h] hr by simp
      ultimately show ?thesis using False by auto
    next
      assume "l \<in> set r"
      then show ?thesis using Cons.IH [of l] hr by simp
    qed
  qed
qed

lemma set_strip: "set (strip s) \<subseteq> set s"
proof -
  have "set (rstrip s) \<subseteq> set s" for s
    using set_dropWhileD [of _ isspace "rev s"] by (auto simp: rstrip_def)
  moreover have "set (lstrip s) \<subseteq> set s"
    using set_dropWhileD [of _ isspace s] by (auto simp: lstrip_def)
  ultimately show ?thesis unfolding strip_def by blast
qed

lemma until_stars_Some:
  "until_stars s = Some nm \<Longrightarrow>
     (\<exists>rest. s = nm @ ''**'' @ rest) \<and> (\<forall>k < length nm. \<not> prefix ''**'' (drop k (nm @ ''**'')))"
proof (induction s arbitrary: nm)
  case Nil
  then show ?case by simp
next
  case (Cons c cs)
  show ?case
  proof (cases "prefix ''**'' (c # cs)")
    case True
    from Cons.prems have "(if prefix ''**'' (c # cs) then Some [] else if c = NL then None
        else map_option ((#) c) (until_stars cs)) = Some nm"
      by (simp only: until_stars.simps)
    with True have "nm = []" by (simp only: if_True option.inject)
    with True show ?thesis by (auto simp: prefix_def)
  next
    case False
    from Cons.prems have "(if prefix ''**'' (c # cs) then Some [] else if c = NL then None
        else map_option ((#) c) (until_stars cs)) = Some nm"
      by (simp only: until_stars.simps)
    with False have "(if c = NL then None else map_option ((#) c) (until_stars cs)) = Some nm"
      by (simp only: if_False)
    then obtain nm' where nm': "until_stars cs = Some nm'" "nm = c # nm'"
      by (auto split: if_splits)
    from Cons.IH [OF nm'(1)] obtain rest where
      r: "cs = nm' @ ''**'' @ rest" and m: "\<forall>k < length nm'. \<not> prefix ''**'' (drop k (nm' @ ''**''))"
      by blast
    have "\<not> prefix ''**'' (drop k (nm @ ''**''))" if "k < length nm" for k
    proof (cases k)
      case 0
      have "prefix ''**'' (c # cs) = prefix ''**'' (nm @ ''**'')"
        using r nm'(2) by (cases nm'; cases "tl nm'") (auto)
      with False have "\<not> prefix ''**'' (nm @ ''**'')" by blast
      with 0 show ?thesis by simp
    next
      case (Suc j)
      with that nm'(2) m show ?thesis by simp
    qed
    with r nm'(2) show ?thesis by auto
  qed
qed

lemma until_stars_None:
  "NL \<notin> set s \<Longrightarrow> until_stars s = None \<Longrightarrow> s \<noteq> nm @ ''**'' @ rest"
proof (induction s arbitrary: nm)
  case Nil
  then show ?case by simp
next
  case (Cons c cs)
  from Cons.prems(2) have "(if prefix ''**'' (c # cs) then Some [] else if c = NL then None
        else map_option ((#) c) (until_stars cs)) = None"
    by (simp only: until_stars.simps)
  with Cons.prems(1) have np: "\<not> prefix ''**'' (c # cs)" and u: "until_stars cs = None"
    by (auto split: if_splits)
  show ?case
  proof (cases nm)
    case Nil
    with np show ?thesis by (auto simp: prefix_def)
  next
    case (Cons a nm')
    with Cons.IH [of nm'] u Cons.prems(1) show ?thesis by auto
  qed
qed

lemma section_match_iff:
  assumes "NL \<notin> set line"
  shows "(\<exists>nm. section_match line = Some nm) \<longleftrightarrow> (\<exists>nm rest. line = ''**'' @ nm @ ''**'' @ rest)"
proof
  assume "\<exists>nm. section_match line = Some nm"
  then obtain nm where nm: "section_match line = Some nm" ..
  then have p: "prefix ''**'' line" and u: "until_stars (drop 2 line) = Some nm"
    by (auto simp: section_match_def split: if_splits)
  from until_stars_Some [OF u] obtain rest where "drop 2 line = nm @ ''**'' @ rest" by blast
  moreover from p have "line = ''**'' @ drop 2 line" by (auto simp: prefix_def)
  ultimately have "line = ''**'' @ nm @ ''**'' @ rest" by simp
  then show "\<exists>nm rest. line = ''**'' @ nm @ ''**'' @ rest" by blast
next
  assume "\<exists>nm rest. line = ''**'' @ nm @ ''**'' @ rest"
  then obtain nm rest where l: "line = ''**'' @ nm @ ''**'' @ rest" by blast
  then have d: "drop 2 line = nm @ ''**'' @ rest" by simp
  from assms have "NL \<notin> set (drop 2 line)" by (meson in_set_dropD)
  with until_stars_None [of "drop 2 line" nm rest] d
  have "until_stars (drop 2 line) \<noteq> None" by blast
  moreover from l have "prefix ''**'' line" by (simp add: prefix_def)
  ultimately show "\<exists>nm. section_match line = Some nm"
    by (auto simp: section_match_def)
qed

lemma process_line_nonheader:
  assumes "section_match line = None"
  shows "\<exists>st'. process_line t st line = Inr st' \<and> sections st' = sections st
            \<and> current_section st' = current_section st"
proof -
  obtain st' where st': "process_line t st line = Inr st'"
    using process_line_Inr by blast
  with assms have "sections st' = sections st \<and> current_section st' = current_section st"
    by (auto simp: process_line_def split: if_splits sum.splits bool.splits)
  with st' show ?thesis by blast
qed

text \<open>
  Claim C4, amended. A line of the text is a section header exactly when, once stripped,
  it starts with \<open>**<text>**\<close>, whatever follows; the name is the text up to the first
  closing pair of stars. On such a line the questions of the open section, when its name
  is not empty, are stored under that name, and the parser goes on with the new name and
  no question. On any other line the stored sections and the open name stay as they are.
\<close>

theorem header_line_step:
  assumes "l \<in> set (split_nl body)"
  shows "((\<exists>nm. section_match (strip l) = Some nm)
            \<longleftrightarrow> (\<exists>nm rest. strip l = ''**'' @ nm @ ''**'' @ rest)) \<and>
         (\<forall>nm. section_match (strip l) = Some nm \<longrightarrow>
            (\<exists>rest. strip l = ''**'' @ nm @ ''**'' @ rest) \<and>
            (\<forall>k < length nm. \<not> prefix ''**'' (drop k (nm @ ''**''))) \<and>
            process_line t st (strip l) =
              Inr \<lparr>sections =
                     (if truthy (current_section st)
                      then AList.update (the (current_section st)) (current_questions st)
                             (sections st)
                      else sections st),
                   current_section = Some nm, current_questions = []\<rparr>) \<and>
         (section_match (strip l) = None \<longrightarrow>
            (\<exists>st'. process_line t st (strip l) = Inr st' \<and> sections st' = sections st
               \<and> current_section st' = current_section st))"
proof -
  from assms have nl: "NL \<notin> set (strip l)"
    using split_nl_no_NL set_strip by blast
  have a: "(\<exists>nm. section_match (strip l) = Some nm)
            \<longleftrightarrow> (\<exists>nm rest. strip l = ''**'' @ nm @ ''**'' @ rest)"
    using nl by (rule section_match_iff)
  have b: "(\<exists>rest. strip l = ''**'' @ nm @ ''**'' @ rest) \<and>
            (\<forall>k < length nm. \<not> prefix ''**'' (drop k (nm @ ''**''))) \<and>
            process_line t st (strip l) =
              Inr \<lparr>sections =
                     (if truthy (current_section st)
                      then AList.update (the (current_section st)) (current_questions st)
                             (sections st)
                      else sections st),
                   current_section = Some nm, current_questions = []\<rparr>"
    if m: "section_match (strip l) = Some nm" for nm
  proof -
    from m have p: "prefix ''**'' (strip l)" and u: "until_stars (drop 2 (strip l)) = Some nm"
      by (auto simp: section_match_def split: if_splits)
    from until_stars_Some [OF u] obtain rest where
      r: "drop 2 (strip l) = nm @ ''**'' @ rest"
      and k: "\<forall>k < length nm. \<not> prefix ''**'' (drop k (nm @ ''**''))" by blast
    from p have "strip l = ''**'' @ drop 2 (strip l)" by (auto simp: prefix_def)
    with r have "strip l = ''**'' @ nm @ ''**'' @ rest" by simp
    moreover from m have "process_line t st (strip l) =
        Inr \<lparr>sections = commit st, current_section = Some nm, current_questions = []\<rparr>"
      by (simp add: process_line_def)
    ultimately show ?thesis using k by (auto simp: commit_def)
  qed
  have c: "section_match (strip l) = None \<longrightarrow>
            (\<exists>st'. process_line t st (strip l) = Inr st' \<and> sections st' = sections st
               \<and> current_section st' = current_section st)"
    using process_line_nonheader by blast
  from a b c show ?thesis by blast
qed

lemma hw_lines: "split_nl ''intro\<newline>  **A** (10 marks)'' = [''intro'', ''  **A** (10 marks)'']"
  by code_simp

lemma hw_strip: "strip ''  **A** (10 marks)'' = ''**A** (10 marks)''"
  by code_simp

lemma hw_match: "section_match ''**A** (10 marks)'' = Some ''A''"
  by code_simp

theorem header_line_step_witness:
  "process_line (template_A ''short_answer'' 5)
     \<lparr>sections = [], current_section = Some ''S'',
      current_questions = [\<lparr>q_text = ''- one'', q_difficulty = ''medium'', q_marks = 0,
                             q_options = None\<rparr>]\<rparr>
     ''**A** (10 marks)''
   = Inr \<lparr>sections = [(''S'', [\<lparr>q_text = ''- one'', q_difficulty = ''medium'', q_marks = 0,
                                q_options = None\<rparr>])],
          current_section = Some ''A'', current_questions = []\<rparr>"
proof -
  define st where "st = \<lparr>sections = [], current_section = Some ''S'',
      current_questions = [\<lparr>q_text = ''- one'', q_difficulty = ''medium'', q_marks = 0,
                             q_options = None\<rparr>]\<rparr>"
  define l where "l = ''  **A** (10 marks)''"
  have "l \<in> set (split_nl ''intro\<newline>  **A** (10 marks)'')"
    unfolding hw_lines l_def by simp
  from header_line_step [OF this, of "template_A ''short_answer'' 5" st]
  have "section_match (strip l) = Some ''A'' \<longrightarrow>
          process_line (template_A ''short_answer'' 5) st (strip l) =
              Inr \<lparr>sections =
                     (if truthy (current_section st)
                      then AList.update (the (current_section st)) (current_questions st)
                             (sections st)
                      else sections st),
                   current_section = Some ''A'', current_questions = []\<rparr>"
    by blast
  moreover have "section_match (strip l) = Some ''A''"
    unfolding l_def hw_strip by (rule hw_match)
  ultimately have "process_line (template_A ''short_answer'' 5) st (strip l) =
              Inr \<lparr>sections =
                     (if truthy (current_section st)
                      then AList.update (the (current_section st)) (current_questions st)
                             (sections st)
                      else sections st),
                   current_section = Some ''A'', current_questions = []\<rparr>"
    by (rule mp)
  then show ?thesis
    unfolding l_def hw_strip st_def by (simp add: truthy_def)
qed

text \<open>
  Claim C4 as stated fails: the line \<open>**A** (10 marks)\<close> is a header of the name \<open>A\<close>,
  and it is not of the form \<open>**<text>**\<close> as a whole.
\<close>

theorem header_whole_line_counterexample:
  "\<not> (\<forall>l. (\<exists>nm. section_match (strip l) = Some nm) \<longleftrightarrow> (\<exists>nm. strip l = ''**'' @ nm @ ''**''))"
proof
  assume "\<forall>l. (\<exists>nm. section_match (strip l) = Some nm) \<longleftrightarrow> (\<exists>nm. strip l = ''**'' @ nm @ ''**'')"
  then have "(\<exists>nm. section_match (strip ''  **A** (10 marks)'') = Some nm)
      \<longleftrightarrow> (\<exists>nm. strip ''  **A** (10 marks)'' = ''**'' @ nm @ ''**'')"
    by (rule spec)
  then have "(\<exists>nm. section_match ''**A** (10 marks)'' = Some nm)
      \<longleftrightarrow> (\<exists>nm. ''**A** (10 marks)'' = ''**'' @ nm @ ''**'')"
    unfolding hw_strip .
  moreover have "\<exists>nm. section_match ''**A** (10 marks)'' = Some nm"
    using hw_match by (rule exI)
  ultimately obtain nm where "''**A** (10 marks)'' = ''**'' @ nm @ ''**''"
    by blast
  then have "last ''**A** (10 marks)'' = last (''**'' @ nm @ ''**'')"
    by (rule arg_cong)
  then show False by simp
qed

section \<open>Multiple-choice items\<close>
























section \<open>Repeated section names\<close>

lemma run_lines_append:
  "run_lines t st (xs @ ys) =
     (case run_lines t st xs of Inl e \<Rightarrow> Inl e | Inr st' \<Rightarrow> run_lines t st' ys)"
  by (induction xs arbitrary: st) (auto split: sum.splits)

lemma process_line_header:
  "section_match line = Some nm \<Longrightarrow>
     process_line t st line
       = Inr \<lparr>sections = commit st, current_section = Some nm, current_questions = []\<rparr>"
  by (simp add: process_line_def)

text \<open>On a line that is no header, the questions that follow do not depend on the
  sections stored so far.\<close>

lemma process_line_sections_indep:
  assumes "section_match line = None" and "process_line t st line = Inr st'"
  shows "process_line t (st\<lparr>sections := secs\<rparr>) line = Inr (st'\<lparr>sections := secs\<rparr>)"
  using assms
  by (auto simp: process_line_def split: if_splits sum.splits bool.splits)

lemma run_lines_sections_indep:
  assumes "\<forall>l \<in> set ls. section_match (strip l) = None" and "run_lines t st ls = Inr st'"
  shows "run_lines t (st\<lparr>sections := secs\<rparr>) ls = Inr (st'\<lparr>sections := secs\<rparr>)"
  using assms
proof (induction ls arbitrary: st)
  case Nil
  then show ?case by simp
next
  case (Cons l ls)
  obtain st1 where st1: "process_line t st (strip l) = Inr st1"
    using process_line_Inr by blast
  from Cons.prems(1) have m: "section_match (strip l) = None" by simp
  from process_line_sections_indep [OF m st1]
  have "process_line t (st\<lparr>sections := secs\<rparr>) (strip l) = Inr (st1\<lparr>sections := secs\<rparr>)" .
  moreover from Cons.prems st1 have "run_lines t st1 ls = Inr st'" by simp
  with Cons.IH [of st1] Cons.prems(1)
  have "run_lines t (st1\<lparr>sections := secs\<rparr>) ls = Inr (st'\<lparr>sections := secs\<rparr>)" by simp
  ultimately show ?case by simp
qed

lemma run_lines_nonheader:
  assumes "\<forall>l \<in> set ls. section_match (strip l) = None" and "run_lines t st ls = Inr st'"
  shows "sections st' = sections st \<and> current_section st' = current_section st"
  using assms
proof (induction ls arbitrary: st)
  case Nil
  then show ?case by simp
next
  case (Cons l ls)
  from Cons.prems(1) have "section_match (strip l) = None" by simp
  from process_line_nonheader [OF this, of t st] obtain st1 where
    st1: "process_line t st (strip l) = Inr st1" "sections st1 = sections st"
      "current_section st1 = current_section st" by blast
  with Cons.prems have "run_lines t st1 ls = Inr st'" by simp
  with Cons.IH [of st1] Cons.prems(1) st1 show ?case by simp
qed

text \<open>Once a name is stored and is not the open one, later lines that are no header of
  that name leave its entry alone.\<close>

lemma commit_other:
  assumes "current_section st \<noteq> Some nm"
  shows "map_of (commit st) nm = map_of (sections st) nm"
  using assms by (auto simp: commit_def truthy_def update_conv' split: option.splits)

lemma process_line_keeps_entry:
  assumes "section_match line \<noteq> Some nm" and "current_section st \<noteq> Some nm"
      and "process_line t st line = Inr st'"
  shows "map_of (sections st') nm = map_of (sections st) nm \<and> current_section st' \<noteq> Some nm"
proof (cases "section_match line")
  case None
  from process_line_nonheader [OF None, of t st] assms(2,3) show ?thesis by auto
next
  case (Some n')
  with assms(1) have "n' \<noteq> nm" by simp
  with process_line_header [OF Some, of t st] assms(3) commit_other [OF assms(2)]
  show ?thesis by auto
qed

lemma run_lines_keeps_entry:
  assumes "\<forall>l \<in> set ls. section_match (strip l) \<noteq> Some nm" and "current_section st \<noteq> Some nm"
      and "run_lines t st ls = Inr st'"
  shows "map_of (sections st') nm = map_of (sections st) nm \<and> current_section st' \<noteq> Some nm"
  using assms
proof (induction ls arbitrary: st)
  case Nil
  then show ?case by simp
next
  case (Cons l ls)
  obtain st1 where st1: "process_line t st (strip l) = Inr st1"
    using process_line_Inr by blast
  from Cons.prems(1) have "section_match (strip l) \<noteq> Some nm" by simp
  from process_line_keeps_entry [OF this Cons.prems(2) st1]
  have k: "map_of (sections st1) nm = map_of (sections st) nm" "current_section st1 \<noteq> Some nm"
    by simp_all
  from Cons.prems(3) st1 have "run_lines t st1 ls = Inr st'" by simp
  with Cons.IH [of st1] Cons.prems(1) k show ?case by simp
qed

lemma commit_open:
  assumes "current_section st = Some nm" and "nm \<noteq> []"
  shows "map_of (commit st) nm = Some (current_questions st)"
  using assms by (simp add: commit_def truthy_def update_conv')

text \<open>
  Claim C10, amended. Let a header line of a non-empty name be the last header of that
  name in the text, followed by lines that are no headers up to the next header or the
  end of the text. Then the document maps the name to the questions gathered from those
  lines alone, whatever earlier headers of the same name had gathered. (A header with an
  empty name, \<open>****\<close>, opens no section, and the document has no entry for it.)
\<close>

theorem last_header_wins:
  assumes sp: "split_nl body = pre @ [h] @ mid @ post"
      and h: "section_match (strip h) = Some nm" and ne: "nm \<noteq> []"
      and mid: "\<forall>l \<in> set mid. section_match (strip l) = None"
      and post1: "post \<noteq> [] \<longrightarrow> section_match (strip (hd post)) \<noteq> None"
      and post2: "\<forall>l \<in> set post. section_match (strip l) \<noteq> Some nm"
  shows "\<exists>doc st. format_response body t = Inr doc \<and>
           run_lines t \<lparr>sections = [], current_section = Some nm, current_questions = []\<rparr> mid
             = Inr st \<and>
           map_of (d_sections doc) nm = Some (current_questions st)"
proof -
  let ?s0 = "\<lparr>sections = [], current_section = Some nm, current_questions = []\<rparr>"
  obtain st1 where st1: "run_lines t init_state pre = Inr st1"
    using run_lines_Inr by blast
  let ?st2 = "\<lparr>sections = commit st1, current_section = Some nm, current_questions = []\<rparr>"
  have st2: "run_lines t st1 [h] = Inr ?st2"
    using process_line_header [OF h, of t st1] by simp
  obtain stm where stm: "run_lines t ?s0 mid = Inr stm"
    using run_lines_Inr by blast
  let ?st3 = "stm\<lparr>sections := commit st1\<rparr>"
  have "?s0\<lparr>sections := commit st1\<rparr> = ?st2" by simp
  with run_lines_sections_indep [OF mid stm, of "commit st1"]
  have st3: "run_lines t ?st2 mid = Inr ?st3" by simp
  from run_lines_nonheader [OF mid stm]
  have cur3: "current_section ?st3 = Some nm" by simp
  have q3: "current_questions ?st3 = current_questions stm" by simp
  obtain st4 where st4: "run_lines t ?st3 post = Inr st4"
    using run_lines_Inr by blast
  have "run_lines t init_state (pre @ [h] @ mid @ post) = Inr st4"
    using st1 st2 st3 st4 by (simp only: run_lines_append sum.case)
  with sp have doc: "format_response body t = Inr \<lparr>d_sections = commit st4\<rparr>"
    by (simp add: format_response_def)
  have "map_of (commit st4) nm = Some (current_questions stm)"
  proof (cases post)
    case Nil
    with st4 have "st4 = ?st3" by simp
    with commit_open [OF cur3 ne] q3 show ?thesis by simp
  next
    case (Cons p ps)
    with post1 post2 obtain n' where n': "section_match (strip p) = Some n'" "n' \<noteq> nm"
      by auto
    let ?st5 = "\<lparr>sections = commit ?st3, current_section = Some n', current_questions = []\<rparr>"
    from process_line_header [OF n'(1), of t ?st3] st4 Cons
    have r: "run_lines t ?st5 ps = Inr st4" by simp
    have e5: "map_of (sections ?st5) nm = Some (current_questions stm)"
      using commit_open [OF cur3 ne] q3 by simp
    have c5: "current_section ?st5 \<noteq> Some nm" using n'(2) by simp
    from post2 Cons have "\<forall>l \<in> set ps. section_match (strip l) \<noteq> Some nm" by simp
    from run_lines_keeps_entry [OF this c5 r] e5
    have "map_of (sections st4) nm = Some (current_questions stm)"
      and "current_section st4 \<noteq> Some nm" by simp_all
    with commit_other [of st4 nm] show ?thesis by simp
  qed
  with doc stm show ?thesis by simp
qed

lemma dup_lines:
  "split_nl ''**A**\<newline>- one\<newline>**A**\<newline>- two\<newline>**B**\<newline>- three''
     = [''**A**'', ''- one''] @ [''**A**''] @ [''- two''] @ [''**B**'', ''- three'']"
  by code_simp

lemma dup_header_A: "section_match (strip ''**A**'') = Some ''A''"
  by code_simp

lemma dup_header_B: "section_match (strip ''**B**'') = Some ''B''"
  by code_simp

lemma dup_two: "section_match (strip ''- two'') = None"
  by code_simp

lemma dup_three: "section_match (strip ''- three'') = None"
  by code_simp

lemma dup_mid:
  "run_lines (template_A ''short_answer'' 1)
     \<lparr>sections = [], current_section = Some ''A'', current_questions = []\<rparr> [''- two'']
   = Inr \<lparr>sections = [], current_section = Some ''A'',
          current_questions = [\<lparr>q_text = ''- two'', q_difficulty = ''medium'', q_marks = 0,
                                  q_options = None\<rparr>]\<rparr>"
  by code_simp

theorem last_header_wins_witness:
  "\<exists>doc. format_response ''**A**\<newline>- one\<newline>**A**\<newline>- two\<newline>**B**\<newline>- three''
            (template_A ''short_answer'' 1) = Inr doc \<and>
         map_of (d_sections doc) ''A''
           = Some [\<lparr>q_text = ''- two'', q_difficulty = ''medium'', q_marks = 0,
                     q_options = None\<rparr>]"
proof -
  have ne: "''A'' \<noteq> []" by simp
  have mid: "\<forall>l \<in> set [''- two'']. section_match (strip l) = None"
    by (simp add: dup_two)
  have post1: "[''**B**'', ''- three''] \<noteq> [] \<longrightarrow>
      section_match (strip (hd [''**B**'', ''- three''])) \<noteq> None"
    by (simp add: dup_header_B)
  have post2: "\<forall>l \<in> set [''**B**'', ''- three'']. section_match (strip l) \<noteq> Some ''A''"
    by (simp add: dup_header_B dup_three)
  from last_header_wins [OF dup_lines dup_header_A ne mid post1 post2,
      of "template_A ''short_answer'' 1"]
  show ?thesis unfolding dup_mid by auto
qed

text \<open>
  Claim C10 as stated fails for the empty name: the header \<open>****\<close> has the name \<open>''\<close>,
  which opens no section, so a text with two such headers gives a document without any
  entry, not one that maps the name to the questions after the last header.
\<close>

theorem empty_name_counterexample:
  "split_nl ''****\<newline>- one\<newline>****\<newline>- two'' = [''****'', ''- one'', ''****'', ''- two'']
   \<and> section_match (strip ''****'') = Some []
   \<and> format_response ''****\<newline>- one\<newline>****\<newline>- two'' (template_A ''short_answer'' 1)
       = Inr \<lparr>d_sections = []\<rparr>"
  by code_simp

section \<open>Whitespace in the extracted text\<close>

lemma double_ws_append:
  "double_ws (x @ y) =
     (double_ws x \<or> double_ws y \<or> (x \<noteq> [] \<and> y \<noteq> [] \<and> isspace (last x) \<and> isspace (hd y)))"
proof (induction x rule: double_ws.induct)
  case (1 a b r)
  then show ?case by auto
qed (simp, cases y, auto)


lemma isspace_space: "isspace (CHR '' '')"
  by (simp add: isspace_def)



text \<open>Collapsing whitespace.\<close>

lemma collapse_ws_hd:
  "s \<noteq> [] \<Longrightarrow> \<not> isspace (hd s) \<Longrightarrow> collapse_ws s \<noteq> [] \<and> hd (collapse_ws s) = hd s"
  by (cases s) (auto simp: collapse_ws.simps)


lemma collapse_ws_set: "\<not> isspace c \<Longrightarrow> c \<in> set (collapse_ws s) \<longleftrightarrow> c \<in> set s"
proof (induction s rule: collapse_ws.induct)
  case 1
  then show ?case by (simp add: collapse_ws.simps)
next
  case (2 a cs)
  have d: "c \<in> set (dropWhile isspace cs) \<longleftrightarrow> c \<in> set cs"
  proof
    assume "c \<in> set (dropWhile isspace cs)"
    then show "c \<in> set cs" by (rule set_dropWhileD)
  next
    assume "c \<in> set cs"
    then have "c \<in> set (takeWhile isspace cs @ dropWhile isspace cs)" by simp
    then have "c \<in> set (takeWhile isspace cs) \<or> c \<in> set (dropWhile isspace cs)"
      by (simp only: set_append Un_iff)
    with 2(3) show "c \<in> set (dropWhile isspace cs)"
      by (auto dest: set_takeWhileD)
  qed
  show ?case
  proof (cases "isspace a")
    case True
    with 2 d show ?thesis by (auto simp: collapse_ws.simps isspace_space)
  next
    case False
    with 2 show ?thesis by (auto simp: collapse_ws.simps)
  qed
qed

lemma collapse_ws_no_double: "\<not> double_ws (collapse_ws s)"
proof (induction s rule: collapse_ws.induct)
  case 1
  show ?case by (simp add: collapse_ws.simps)
next
  case (2 a cs)
  show ?case
  proof (cases "isspace a")
    case True
    let ?d = "dropWhile isspace cs"
    have "\<not> double_ws (CHR '' '' # collapse_ws ?d)"
    proof (cases ?d)
      case Nil
      show ?thesis unfolding Nil by (simp add: collapse_ws.simps)
    next
      case (Cons x r)
      then have "\<not> isspace x" by (metis hd_dropWhile list.sel(1) list.distinct(1))
      with Cons collapse_ws_hd [of ?d]
      have "collapse_ws ?d \<noteq> [] \<and> hd (collapse_ws ?d) = x" by simp
      with \<open>\<not> isspace x\<close> 2(1) [OF True] show ?thesis
        by (cases "collapse_ws ?d") auto
    qed
    with True show ?thesis by (simp add: collapse_ws.simps)
  next
    case False
    with 2(2) show ?thesis
      by (cases "collapse_ws cs") (auto simp: collapse_ws.simps)
  qed
qed

text \<open>Stripping.\<close>

lemma strip_infix: "\<exists>a b. s = a @ strip s @ b"
proof -
  have l: "s = takeWhile isspace s @ lstrip s" by (simp add: lstrip_def)
  have "rev (lstrip s) = takeWhile isspace (rev (lstrip s)) @ dropWhile isspace (rev (lstrip s))"
    by simp
  then have "lstrip s = rstrip (lstrip s) @ rev (takeWhile isspace (rev (lstrip s)))"
    unfolding rstrip_def by (metis rev_append rev_rev_ident)
  with l have "s = takeWhile isspace s @ strip s @ rev (takeWhile isspace (rev (lstrip s)))"
    unfolding strip_def by simp
  then show ?thesis by blast
qed

lemma strip_no_edge: "\<not> edge_ws (strip s)"
proof -
  let ?l = "lstrip s"
  have h: "?l \<noteq> [] \<Longrightarrow> \<not> isspace (hd ?l)"
    unfolding lstrip_def by (rule hd_dropWhile)
  have la: "rstrip x \<noteq> [] \<Longrightarrow> \<not> isspace (last (rstrip x))" for x
    unfolding rstrip_def using hd_dropWhile [of isspace "rev x"] by (simp add: last_rev)
  have hd_keep: "x \<noteq> [] \<Longrightarrow> \<not> isspace (hd x) \<Longrightarrow> rstrip x \<noteq> [] \<and> hd (rstrip x) = hd x" for x
  proof -
    assume x: "x \<noteq> []" "\<not> isspace (hd x)"
    then obtain c r where cr: "x = c # r" by (cases x) auto
    with x have "dropWhile isspace (rev r @ [c]) = dropWhile isspace (rev r) @ [c]"
      by (simp add: dropWhile_append3)
    with cr show ?thesis
      by (cases "rev (dropWhile isspace (rev r))") (auto simp: rstrip_def)
  qed
  show ?thesis
  proof (cases "strip s = []")
    case True
    then show ?thesis by (simp add: edge_ws_def)
  next
    case False
    then have ne: "?l \<noteq> []" by (auto simp: strip_def rstrip_def)
    from hd_keep [OF ne h [OF ne]] h [OF ne] la [of ?l] False show ?thesis
      by (simp add: edge_ws_def strip_def)
  qed
qed

lemma strip_nonempty: "c \<in> set s \<Longrightarrow> \<not> isspace c \<Longrightarrow> c \<in> set (strip s)"
proof -
  assume c: "c \<in> set s" "\<not> isspace c"
  have keep: "c \<in> set x \<Longrightarrow> c \<in> set (dropWhile isspace x)" for x
  proof -
    assume "c \<in> set x"
    then have "c \<in> set (takeWhile isspace x @ dropWhile isspace x)" by simp
    then have "c \<in> set (takeWhile isspace x) \<or> c \<in> set (dropWhile isspace x)"
      by (simp only: set_append Un_iff)
    with c(2) show ?thesis by (auto dest: set_takeWhileD)
  qed
  from keep [OF c(1)] have "c \<in> set (rev (lstrip s))" by (simp add: lstrip_def)
  from keep [OF this] show ?thesis by (simp add: strip_def rstrip_def)
qed

lemma double_ws_strip: "double_ws (strip s) \<Longrightarrow> double_ws s"
proof -
  obtain a b where "s = a @ strip s @ b" using strip_infix by blast
  then have "double_ws s = double_ws (a @ strip s @ b)" by simp
  then show "double_ws (strip s) \<Longrightarrow> double_ws s"
    by (simp add: double_ws_append)
qed

text \<open>A page with some text normalises to a non-empty string without leading, trailing
  or doubled whitespace; joining such strings with single spaces keeps this.\<close>

lemma normal_page:
  assumes "c \<in> set page" and "\<not> isspace c"
  shows "strip (collapse_ws page) \<noteq> [] \<and> \<not> double_ws (strip (collapse_ws page))
         \<and> \<not> edge_ws (strip (collapse_ws page))"
proof -
  from assms have "c \<in> set (collapse_ws page)" by (simp add: collapse_ws_set)
  then have "c \<in> set (strip (collapse_ws page))" using assms(2) by (rule strip_nonempty)
  then have "strip (collapse_ws page) \<noteq> []" by auto
  moreover have "\<not> double_ws (strip (collapse_ws page))"
    using double_ws_strip collapse_ws_no_double by blast
  ultimately show ?thesis using strip_no_edge by blast
qed

lemma join_space_tidy:
  assumes "\<forall>x \<in> set xs. x \<noteq> [] \<and> \<not> double_ws x \<and> \<not> edge_ws x"
  shows "(xs \<noteq> [] \<longrightarrow> join_space xs \<noteq> []) \<and> \<not> double_ws (join_space xs)
         \<and> \<not> edge_ws (join_space xs)"
  using assms
proof (induction xs rule: join_space.induct)
  case 1
  show ?case by (simp add: edge_ws_def)
next
  case (2 x)
  then show ?case by simp
next
  case (3 x y ys)
  let ?J = "join_space (y # ys)"
  from 3 have J: "?J \<noteq> []" "\<not> double_ws ?J" "\<not> edge_ws ?J" by simp_all
  from 3(2) have x: "x \<noteq> []" "\<not> double_ws x" "\<not> edge_ws x" by simp_all
  from J have hJ: "\<not> isspace (hd ?J)" "\<not> isspace (last ?J)" by (simp_all add: edge_ws_def)
  from x have hx: "\<not> isspace (hd x)" "\<not> isspace (last x)" by (simp_all add: edge_ws_def)
  have "\<not> double_ws (CHR '' '' # ?J)"
    using J hJ by (cases ?J) auto
  with x hx have d: "\<not> double_ws (x @ CHR '' '' # ?J)"
    by (simp add: double_ws_append)
  have "\<not> edge_ws (x @ CHR '' '' # ?J)"
    using x hx J hJ by (simp add: edge_ws_def)
  with d show ?case by simp
qed

text \<open>
  Claim C6, amended. For a document every page of which has some text that is not
  whitespace, and for a document that cannot be read (the output is then empty), the
  output of the extractor has no two whitespace characters in a row and no whitespace at
  either end; the pages, each collapsed and trimmed, are joined by single spaces.
\<close>

theorem extract_text_tidy:
  assumes "\<forall>page \<in> set ps. \<exists>c \<in> set page. \<not> isspace c"
  shows "\<not> double_ws (extract_text_from_pdf (Pages ps))
       \<and> \<not> edge_ws (extract_text_from_pdf (Pages ps))
       \<and> \<not> double_ws (extract_text_from_pdf Unreadable)
       \<and> \<not> edge_ws (extract_text_from_pdf Unreadable)"
proof -
  let ?xs = "map (\<lambda>page. strip (collapse_ws page)) ps"
  from assms have "\<forall>x \<in> set ?xs. x \<noteq> [] \<and> \<not> double_ws x \<and> \<not> edge_ws x"
    using normal_page by auto
  from join_space_tidy [OF this]
  have "\<not> double_ws (join_space ?xs) \<and> \<not> edge_ws (join_space ?xs)" by simp
  then show ?thesis by (simp add: extract_text_from_pdf_def edge_ws_def)
qed

lemma tidy_pages:
  "\<forall>page \<in> set [''  Unit 1\<newline>\<newline> Intro '', ''Q1.  What is X?'']. \<exists>c \<in> set page. \<not> isspace c"
proof -
  have "\<not> isspace (CHR ''U'')" by (simp add: isspace_def)
  moreover have "\<not> isspace (CHR ''Q'')" by (simp add: isspace_def)
  ultimately show ?thesis by auto
qed

theorem extract_text_tidy_witness:
  "extract_text_from_pdf (Pages [''  Unit 1\<newline>\<newline> Intro '', ''Q1.  What is X?''])
     = ''Unit 1 Intro Q1. What is X?''
   \<and> \<not> double_ws (extract_text_from_pdf (Pages [''  Unit 1\<newline>\<newline> Intro '', ''Q1.  What is X?'']))
   \<and> \<not> edge_ws (extract_text_from_pdf (Pages [''  Unit 1\<newline>\<newline> Intro '', ''Q1.  What is X?'']))"
proof -
  have "extract_text_from_pdf (Pages [''  Unit 1\<newline>\<newline> Intro '', ''Q1.  What is X?''])
     = ''Unit 1 Intro Q1. What is X?''"
    by code_simp
  with extract_text_tidy [OF tidy_pages] show ?thesis by blast
qed

text \<open>
  Claim C6 as stated fails for a document with a page without text: the empty page still
  gets its separating space.
\<close>

theorem empty_page_counterexample:
  "extract_text_from_pdf (Pages [''a'', '''', ''b'']) = ''a  b''
   \<and> double_ws (extract_text_from_pdf (Pages [''a'', '''', ''b'']))
   \<and> extract_text_from_pdf (Pages ['''', ''a'']) = '' a''
   \<and> edge_ws (extract_text_from_pdf (Pages ['''', ''a'']))"
  by code_simp

section \<open>Harvested questions\<close>


































section \<open>Failures of the generation step\<close>

lemma format_response_empty: "format_response [] t = Inr \<lparr>d_sections = []\<rparr>"
proof -
  have "strip [] = []" by (simp add: strip_def lstrip_def rstrip_def)
  moreover have "section_match [] = None" by (simp add: section_match_def)
  ultimately have "run_lines t init_state (split_nl []) = Inr init_state"
    by (simp add: process_line_def)
  then show ?thesis
    by (simp add: format_response_def commit_def truthy_def init_state_def)
qed

lemma format_response_Inr: "\<exists>d. format_response content t = Inr d"
proof -
  obtain st where "run_lines t init_state (split_nl content) = Inr st"
    using run_lines_Inr by blast
  then show ?thesis by (simp add: format_response_def)
qed

text \<open>
  Claim C8, amended. The generation step returns an error message exactly when the
  combined source text is empty or the call of the generation service fails; the message
  is then the fixed text about missing content, or the fixed prefix followed by the
  message of the failure, and no document is returned. In every other case the answer is
  parsed and the document returned; an empty answer gives the document without sections.
\<close>

theorem generate_questions_failures:
  "((\<exists>msg. generate_questions title chat body t dd pq = Inl msg) \<longleftrightarrow>
      (body = [] \<or> (\<exists>m. chat (system_prompt title t dd pq) (user_prompt body) = ChatRaises m)))
   \<and> (\<forall>msg. generate_questions title chat body t dd pq = Inl msg \<longrightarrow>
         msg = ''No meaningful content found in the PDFs''
         \<or> (\<exists>m. chat (system_prompt title t dd pq) (user_prompt body) = ChatRaises m
                \<and> msg = ''Error generating questions: '' @ m))
   \<and> (\<forall>content. body \<noteq> []
         \<and> chat (system_prompt title t dd pq) (user_prompt body) = ChatReturns content \<longrightarrow>
         (\<exists>d. format_response content t = Inr d
              \<and> generate_questions title chat body t dd pq = Inr d))
   \<and> (body \<noteq> [] \<and> chat (system_prompt title t dd pq) (user_prompt body) = ChatReturns [] \<longrightarrow>
         generate_questions title chat body t dd pq = Inr \<lparr>d_sections = []\<rparr>)"
proof (cases "body = []")
  case True
  then show ?thesis by (simp add: generate_questions_def)
next
  case False
  show ?thesis
  proof (cases "chat (system_prompt title t dd pq) (user_prompt body)")
    case (ChatRaises m)
    with False show ?thesis by (simp add: generate_questions_def)
  next
    case (ChatReturns content)
    obtain d where d: "format_response content t = Inr d"
      using format_response_Inr by blast
    with False ChatReturns
    have g: "generate_questions title chat body t dd pq = Inr d"
      by (simp add: generate_questions_def)
    from d format_response_empty [of t] have "content = [] \<longrightarrow> d = \<lparr>d_sections = []\<rparr>"
      by auto
    with False ChatReturns d g show ?thesis by auto
  qed
qed

theorem generate_questions_failures_witness:
  "generate_questions ascii_title (\<lambda>s u. ChatRaises ''connection refused'') ''notes''
     (template_A ''short_answer'' 5) quota_30_40_30 None
   = Inl ''Error generating questions: connection refused''"
proof -
  define g where "g = generate_questions ascii_title (\<lambda>s u. ChatRaises ''connection refused'')
     ''notes'' (template_A ''short_answer'' 5) quota_30_40_30 None"
  note th = generate_questions_failures [of ascii_title "\<lambda>s u. ChatRaises ''connection refused''"
      "''notes''" "template_A ''short_answer'' 5" quota_30_40_30 None, folded g_def]
  from th have "(\<exists>msg. g = Inl msg) =
      (''notes'' = [] \<or> (\<exists>m. ChatRaises ''connection refused'' = ChatRaises m))"
    by (rule conjunct1)
  then have "\<exists>msg. g = Inl msg" by simp
  then obtain msg where msg: "g = Inl msg" ..
  from th have "\<forall>msg. g = Inl msg \<longrightarrow>
            msg = ''No meaningful content found in the PDFs'' \<or>
            (\<exists>m. ChatRaises ''connection refused'' = ChatRaises m \<and>
                 msg = ''Error generating questions: '' @ m)"
    by (rule conjunct1 [OF conjunct2])
  with msg have "msg = ''No meaningful content found in the PDFs''
      \<or> msg = ''Error generating questions: '' @ ''connection refused''"
    by auto
  moreover have "msg \<noteq> ''No meaningful content found in the PDFs''"
  proof
    assume "msg = ''No meaningful content found in the PDFs''"
    with msg show False unfolding g_def by (simp add: generate_questions_def)
  qed
  ultimately have "msg = ''Error generating questions: connection refused''" by simp
  with msg show ?thesis unfolding g_def by simp
qed

text \<open>
  Claim C8 as stated fails for an empty answer of the service: it is parsed like any
  other text, and the result is a document without sections, not a failure.
\<close>

theorem empty_response_counterexample:
  "generate_questions ascii_title (\<lambda>s u. ChatReturns []) ''notes''
     (template_A ''short_answer'' 5) quota_30_40_30 None
   = Inr \<lparr>d_sections = []\<rparr>"
  by (simp add: generate_questions_def format_response_empty)

section \<open>The composer reads bounded parts of its input\<close>

lemma past_questions_section_bounded:
  assumes "map_option (take 15) pq = map_option (take 15) pq'"
  shows "past_questions_section pq = past_questions_section pq'"
proof (cases pq)
  case None
  with assms have "pq' = None" by simp
  with None show ?thesis by simp
next
  case (Some a)
  with assms obtain b where b: "pq' = Some b" "take 15 a = take 15 b"
    by (cases pq') auto
  have "(a = []) = (take 15 a = [])" by simp
  also have "\<dots> = (take 15 b = [])" using b(2) by simp
  also have "\<dots> = (b = [])" by simp
  finally have "a = [] \<longleftrightarrow> b = []" .
  with Some b show ?thesis by (simp add: past_questions_section_def)
qed

text \<open>
  Claim C9. The composer is a function of its inputs, and of bounded parts of them: two
  runs whose templates and quotas are the same, whose source texts agree on the first
  4000 characters and whose past questions agree on the first 15 give the same system
  instruction and the same user instruction, character for character. In particular two
  runs on identical inputs do. The user instruction is the fixed opening followed by the
  first 4000 characters of the source text.
\<close>

theorem composer_deterministic_and_bounded:
  assumes "take 4000 body = take 4000 body'"
      and "map_option (take 15) pq = map_option (take 15) pq'"
  shows "system_prompt title t dd pq = system_prompt title t dd pq'
       \<and> user_prompt body = user_prompt body'
       \<and> user_prompt body = ''Generate a comprehensive question paper from: '' @ take 4000 body
       \<and> length (user_prompt body) \<le> 46 + 4000"
proof -
  from assms(2) have "past_questions_section pq = past_questions_section pq'"
    by (rule past_questions_section_bounded)
  then have "system_prompt title t dd pq = system_prompt title t dd pq'"
    by (simp add: system_prompt_def)
  moreover from assms(1) have "user_prompt body = user_prompt body'"
    by (simp add: user_prompt_def)
  moreover have "length (user_prompt body) \<le> 46 + 4000"
    by (simp add: user_prompt_def)
  ultimately show ?thesis by (simp add: user_prompt_def)
qed

theorem composer_deterministic_and_bounded_witness:
  "system_prompt ascii_title (template_A ''short_answer'' 5) quota_30_40_30
       (Some (replicate 15 ''What is X?'' @ [''sixteenth'']))
     = system_prompt ascii_title (template_A ''short_answer'' 5) quota_30_40_30
       (Some (replicate 15 ''What is X?'' @ [''another'']))
   \<and> user_prompt (replicate 4000 (CHR ''a'') @ ''tail'')
     = user_prompt (replicate 4000 (CHR ''a'') @ ''other'')"
proof -
  have 1: "take 4000 (replicate 4000 (CHR ''a'') @ ''tail'')
      = take 4000 (replicate 4000 (CHR ''a'') @ ''other'')"
    by simp
  have 2: "map_option (take 15) (Some (replicate 15 ''What is X?'' @ [''sixteenth'']))
      = map_option (take 15) (Some (replicate 15 ''What is X?'' @ [''another'']))"
    by simp
  from composer_deterministic_and_bounded [OF 1 2] show ?thesis by blast
qed

end
